theory Spec2Isabelle
  imports Main "HOL-Library.Word"
begin

section \<open>Go values used by cache.go\<close>

text \<open>
  Go's \<open>int\<close> and \<open>time.Duration\<close> (nanoseconds) are 64-bit signed integers. They are
  modelled as \<open>int\<close>: the only arithmetic of cache.go is \<open>ttl / numShards\<close>,
  \<open>capacity / numShards\<close>, \<open>(nextShard + 1) % len(shards)\<close> and the sum of the shard sizes,
  none of which leaves the 64-bit range on values the program can hold (a quotient by a
  positive divisor, an index below a slice length, a count of resident entries).
  The hash is a \<open>uint64\<close> and is a \<open>64 word\<close>.

  A panic is a value of type \<open>error\<close>; a function that can panic returns \<open>error + 'a\<close>.
\<close>

datatype error =
    ConfigError
  | DivideByZero
  | IndexOutOfRange
  | MakeSliceLenOutOfRange
  | NilDereference
  | SweepPanic

text \<open>Go's \<open>/\<close> truncates towards zero and \<open>%\<close> takes the sign of the dividend; both panic on
  a zero divisor.\<close>

definition go_div :: "int \<Rightarrow> int \<Rightarrow> error + int" where
  "go_div a b = (if b = 0 then Inl DivideByZero else Inr (sgn a * sgn b * (\<bar>a\<bar> div \<bar>b\<bar>)))"

definition go_mod :: "int \<Rightarrow> int \<Rightarrow> error + int" where
  "go_mod a b = (if b = 0 then Inl DivideByZero else Inr (sgn a * (\<bar>a\<bar> mod \<bar>b\<bar>)))"

section \<open>Collaborators\<close>

text \<open>
  The methods of the \<open>MetricsRecorder\<close> interface (cache.go, lines 11-20). Every method
  returns nothing, so the calls a function makes on the recorder are its only effect there:
  a function of the model returns the list of calls it made, in order.
  \<open>ObserveCacheSize\<close> takes a callback, which is left out.
\<close>

datatype metric_call =
    CacheHit
  | CacheMiss
  | Eviction
  | ForcedEviction
  | EntriesEvicted int
  | ShardIndex int
  | CacheBatchRefreshSize int
  | ObserveCacheSize

text \<open>An implementation of the interface, known by a name. The nil interface value is \<open>None\<close>.\<close>

datatype MetricsRecorder = Recorder nat

text \<open>A method call on an interface value: on nil it is a nil-pointer dereference.\<close>

fun call_recorder :: "MetricsRecorder option \<Rightarrow> metric_call \<Rightarrow> error + metric_call list" where
  "call_recorder None m = Inl NilDereference"
| "call_recorder (Some r) m = Inr [m]"

text \<open>
  Modelled from the spec: the \<open>Clock\<close> interface and \<open>NewClock\<close> are not among the sources.
  The spec's clock collaborator "exposes current time and a recurring-tick primitive" and is
  "injected"; a clock is known here by a name, \<open>RealClock\<close> being what \<open>NewClock()\<close> returns.
\<close>

datatype Clock = RealClock | CustomClock nat

text \<open>Modelled from the spec: \<open>NewClock\<close>, which is not among the sources; it gives the
  clock of the default configuration.\<close>

definition NewClock :: Clock where
  "NewClock = RealClock"

section \<open>Config and Client\<close>

text \<open>
  The struct \<open>Config\<close> (lines 35-59). The mutex, the two buffer maps and the \<open>getSize\<close>
  closure (which points back at the client) carry no value that the functions below read
  and are left out; durations are nanoseconds.
\<close>

record Config =
  clock :: Clock
  evictionInterval :: int
  metricsRecorder :: "MetricsRecorder option"
  refreshesEnabled :: bool
  minRefreshTime :: int
  maxRefreshTime :: int
  retryBaseDelay :: int
  storeMisses :: bool
  bufferRefreshes :: bool
  batchSize :: int
  bufferTimeout :: int
  passthroughPercentage :: int
  passthroughBuffering :: bool
  useRelativeTimeKeyFormat :: bool
  keyTruncation :: int

text \<open>An \<open>Option\<close> is a \<open>func(*Config)\<close>: it updates the configuration in place.\<close>

type_synonym Option = "Config \<Rightarrow> Config"

text \<open>
  The type \<open>shard\<close>, its entries and its methods (\<open>newShard\<close>, \<open>size\<close>, \<open>delete\<close>,
  \<open>set\<close>, \<open>evictExpired\<close>) are used by cache.go and are not among the sources. Each is
  modelled from the spec, under the name and with the text it is modelled from.
\<close>

text \<open>Modelled from the spec: the type of the entries of a shard, which is not among the
  sources. An entry is a "value of generic type T, creation/refresh timestamp, a flag
  isMissingRecord, and derived expiry = creation time + TTL".\<close>

record 'v entry =
  val :: 'v
  createdAt :: int
  isMissingRecord :: bool

text \<open>Modelled from the spec: the struct \<open>shard\<close>, which is not among the sources. A shard
  is a "mapping from string key to Entry (keys unique, insertion order irrelevant), a
  capacity bound, an eviction percentage, and a TTL", and \<open>newShard\<close> is handed the
  configuration. The mapping is an association list with one pair for each key.\<close>

record 'v shard =
  shardCapacity :: int
  shardTTL :: int
  shardEvictionPercentage :: int
  entries :: "(string \<times> 'v entry) list"
  shardConfig :: Config

text \<open>Modelled from the spec: \<open>newShard\<close>, which is not among the sources. A shard is
  "created once at cache construction with a fixed slice of total capacity"; it keeps the
  four arguments of line 98 and starts with no entry.\<close>

definition newShard :: "int \<Rightarrow> int \<Rightarrow> int \<Rightarrow> Config \<Rightarrow> 'v shard" where
  "newShard cap ttl' pct config =
     \<lparr>shardCapacity = cap, shardTTL = ttl', shardEvictionPercentage = pct,
      entries = [], shardConfig = config\<rparr>"

text \<open>Modelled from the spec: the method \<open>size\<close> of a shard, which is not among the sources.
  "size() -> int: current entry count".\<close>

definition size_shard :: "'v shard \<Rightarrow> int" where
  "size_shard s = int (length (entries s))"

text \<open>Modelled from the spec: the method \<open>delete\<close> of a shard, which is not among the
  sources. "delete(key): removes the entry if present; no-op otherwise; no error".\<close>

definition delete_shard :: "string \<Rightarrow> 'v shard \<Rightarrow> 'v shard" where
  "delete_shard key s = s\<lparr>entries := filter (\<lambda>(k, e). k \<noteq> key) (entries s)\<rparr>"

text \<open>Modelled from the spec: the method \<open>evictExpired\<close> of a shard, which is not among the
  sources. "evictExpired(): scans for entries whose expiry has passed and removes them",
  the expiry being creation time + TTL and \<open>now\<close> the clock's reading.\<close>

definition evictExpired :: "int \<Rightarrow> 'v shard \<Rightarrow> 'v shard" where
  "evictExpired now s =
     s\<lparr>entries := filter (\<lambda>(k, e). \<not> createdAt e + shardTTL s < now) (entries s)\<rparr>"

text \<open>
  Modelled from the spec: the method \<open>set\<close> of a shard, which is not among the sources.
  "set(key, value, isMissingRecord) -> triggeredEviction bool: inserts or overwrites; if post-insert size exceeds capacity, performs forced eviction:
  remove evictionPercentage% of entries, tie-broken by nearest-to-expiry first, report
  ForcedEviction + EntriesEvicted(n) to the metrics sink. Returns whether eviction fired".
  The percentage is rounded down. The result is the shard, the flag and the calls made on
  the recorder.
\<close>

definition set_shard ::
  "int \<Rightarrow> string \<Rightarrow> 'v \<Rightarrow> bool \<Rightarrow> 'v shard \<Rightarrow> 'v shard \<times> bool \<times> metric_call list" where
  "set_shard now key v missing s =
     (let inserted = (key, \<lparr>val = v, createdAt = now, isMissingRecord = missing\<rparr>)
                       # filter (\<lambda>(k, e). k \<noteq> key) (entries s)
      in if shardCapacity s < int (length inserted)
         then let n = nat (int (length inserted) * shardEvictionPercentage s div 100)
              in (s\<lparr>entries := drop n (sort_key (\<lambda>(k, e). createdAt e) inserted)\<rparr>,
                  True,
                  if metricsRecorder (shardConfig s) = None then []
                  else [ForcedEviction, EntriesEvicted (int n)])
         else (s\<lparr>entries := inserted\<rparr>, False, []))"

text \<open>
  The struct \<open>Client\<close> (lines 62-67). \<open>cfg\<close> is the embedded \<open>*Config\<close>. A \<open>*shard\<close> is
  its position in the slice \<open>shards\<close>: the slice is the store of the shards, and a method
  that mutates the shard behind a pointer replaces the element at that position.
\<close>

record 'v Client =
  cfg :: Config
  ttl :: int
  shards :: "'v shard list"
  nextShard :: int

section \<open>New\<close>

text \<open>
  Modelled from the spec: \<open>validateArgs\<close> is called by \<open>New\<close> (line 77) and is not among the
  sources. The spec: New "validates numShards > 0, ttl > 0, 0 <= evictionPercentage <= 100,
  capacity >= numShards (else fails with a configuration error - fatal at construction,
  not recoverable)".
\<close>

definition validateArgs :: "int \<Rightarrow> int \<Rightarrow> int \<Rightarrow> int \<Rightarrow> error + unit" where
  "validateArgs cap numShards ttl' pct =
     (if 0 < numShards \<and> 0 < ttl' \<and> 0 \<le> pct \<and> pct \<le> 100 \<and> numShards \<le> cap
      then Inr () else Inl ConfigError)"

text \<open>The default configuration of lines 82-87; the fields it does not name have Go's zero
  value.\<close>

definition defaultConfig :: "int \<Rightarrow> Config" where
  "defaultConfig interval =
     \<lparr>clock = NewClock, evictionInterval = interval, metricsRecorder = None,
      refreshesEnabled = False, minRefreshTime = 0, maxRefreshTime = 0, retryBaseDelay = 0,
      storeMisses = False, bufferRefreshes = False, batchSize = 0, bufferTimeout = 0,
      passthroughPercentage = 100, passthroughBuffering = False,
      useRelativeTimeKeyFormat = False, keyTruncation = 0\<rparr>"

text \<open>The loop of lines 90-92: the options are applied in order.\<close>

fun applyOptions :: "Config \<Rightarrow> Option list \<Rightarrow> Config" where
  "applyOptions config [] = config"
| "applyOptions config (opt # opts) = applyOptions (opt config) opts"

text \<open>The loop of lines 97-99: one call of \<open>newShard\<close> for each index below \<open>numShards\<close>.\<close>

definition makeShards :: "nat \<Rightarrow> int \<Rightarrow> int \<Rightarrow> int \<Rightarrow> Config \<Rightarrow> 'v shard list" where
  "makeShards n shardSize ttl' pct config =
     map (\<lambda>i. newShard shardSize ttl' pct config) [0..<n]"

text \<open>
  \<open>New\<close> (lines 76-107). The goroutine that \<open>startEvictions\<close> spawns on line 104 runs beside
  the caller and does not change what \<open>New\<close> returns; its loop is \<open>startEvictions\<close> below.
\<close>

definition New :: "int \<Rightarrow> int \<Rightarrow> int \<Rightarrow> int \<Rightarrow> Option list \<Rightarrow> error + 'v Client" where
  "New cap numShards ttl' pct opts =
     (case validateArgs cap numShards ttl' pct of
        Inl e \<Rightarrow> Inl e
      | Inr u \<Rightarrow>
          (case go_div ttl' numShards of
             Inl e \<Rightarrow> Inl e
           | Inr interval \<Rightarrow>
               (let config = applyOptions (defaultConfig interval) opts in
                (case go_div cap numShards of
                   Inl e \<Rightarrow> Inl e
                 | Inr shardSize \<Rightarrow>
                     if numShards < 0 then Inl MakeSliceLenOutOfRange
                     else Inr \<lparr>cfg = config, ttl = ttl',
                               shards = makeShards (nat numShards) shardSize ttl' pct config,
                               nextShard = 0\<rparr>))))"

section \<open>Size, getShard, reportCacheHits\<close>

text \<open>\<open>Size\<close> (lines 110-116): the loop over the shards, with the running sum and the number
  of \<open>size()\<close> calls made so far.\<close>

fun sizeLoop :: "'v shard list \<Rightarrow> int \<times> nat \<Rightarrow> int \<times> nat" where
  "sizeLoop [] acc = acc"
| "sizeLoop (s # ss) (sm, k) = sizeLoop ss (sm + size_shard s, Suc k)"

definition Size :: "'v Client \<Rightarrow> int" where
  "Size c = fst (sizeLoop (shards c) (0, 0))"

definition Size_calls :: "'v Client \<Rightarrow> nat" where
  "Size_calls c = snd (sizeLoop (shards c) (0, 0))"

text \<open>
  \<open>getShard\<close> (lines 140-147). \<open>hash\<close> stands for \<open>xxhash.Sum64String\<close>. The length of a
  slice is a non-negative \<open>int\<close>, so \<open>uint64(len(c.shards))\<close> is the length itself and the
  unsigned remainder is the remainder of the two naturals. The result is the position of
  the returned shard and the calls made on the recorder.
\<close>

definition getShard ::
  "(string \<Rightarrow> 64 word) \<Rightarrow> 'v Client \<Rightarrow> string \<Rightarrow> error + nat \<times> metric_call list" where
  "getShard hash c key =
     (if length (shards c) = 0 then Inl DivideByZero
      else let shardIndex = unat (hash key) mod length (shards c) in
        (case (if metricsRecorder (cfg c) \<noteq> None
               then call_recorder (metricsRecorder (cfg c)) (ShardIndex (int shardIndex))
               else Inr []) of
           Inl e \<Rightarrow> Inl e
         | Inr calls \<Rightarrow>
             if shardIndex < length (shards c) then Inr (shardIndex, calls)
             else Inl IndexOutOfRange))"

text \<open>\<open>reportCacheHits\<close> (lines 150-159).\<close>

definition reportCacheHits :: "'v Client \<Rightarrow> bool \<Rightarrow> error + metric_call list" where
  "reportCacheHits c cacheHit =
     (if metricsRecorder (cfg c) = None then Inr []
      else if \<not> cacheHit then call_recorder (metricsRecorder (cfg c)) CacheMiss
      else call_recorder (metricsRecorder (cfg c)) CacheHit)"

text \<open>\<open>Delete\<close> (lines 119-122) and \<open>set\<close> (lines 162-165).\<close>

definition Delete ::
  "(string \<Rightarrow> 64 word) \<Rightarrow> 'v Client \<Rightarrow> string \<Rightarrow> error + 'v Client \<times> metric_call list" where
  "Delete hash c key =
     (case getShard hash c key of
        Inl e \<Rightarrow> Inl e
      | Inr (i, calls) \<Rightarrow>
          Inr (c\<lparr>shards := (shards c)[i := delete_shard key (shards c ! i)]\<rparr>, calls))"

definition set_client ::
  "(string \<Rightarrow> 64 word) \<Rightarrow> int \<Rightarrow> 'v Client \<Rightarrow> string \<Rightarrow> 'v \<Rightarrow> bool
     \<Rightarrow> error + 'v Client \<times> bool \<times> metric_call list" where
  "set_client hash now c key v missing =
     (case getShard hash c key of
        Inl e \<Rightarrow> Inl e
      | Inr (i, calls) \<Rightarrow>
          (case set_shard now key v missing (shards c ! i) of
             (s', triggered, calls') \<Rightarrow>
               Inr (c\<lparr>shards := (shards c)[i := s']\<rparr>, triggered, calls @ calls')))"

section \<open>The eviction scheduler\<close>

text \<open>
  One iteration of the loop of \<open>startEvictions\<close> (lines 129-135), for the tick delivered at
  time \<open>now\<close>. \<open>sweep\<close> stands for the method \<open>evictExpired\<close> of the shard under the cursor,
  whatever it does: it gets the clock's reading and the shard and returns the swept shard
  or panics. The loop body has no \<open>recover\<close>, so a panic of the sweep is a panic of the
  iteration.
\<close>

definition evictionTick ::
  "(int \<Rightarrow> 'v shard \<Rightarrow> error + 'v shard) \<Rightarrow> int \<Rightarrow> 'v Client
     \<Rightarrow> error + 'v Client \<times> metric_call list" where
  "evictionTick sweep now c =
     (case (if metricsRecorder (cfg c) \<noteq> None
            then call_recorder (metricsRecorder (cfg c)) Eviction
            else Inr []) of
        Inl e \<Rightarrow> Inl e
      | Inr calls \<Rightarrow>
          if nextShard c < 0 \<or> int (length (shards c)) \<le> nextShard c then Inl IndexOutOfRange
          else
            (case sweep now (shards c ! nat (nextShard c)) of
               Inl e \<Rightarrow> Inl e
             | Inr s' \<Rightarrow>
                 (case go_mod (nextShard c + 1) (int (length (shards c))) of
                    Inl e \<Rightarrow> Inl e
                  | Inr next \<Rightarrow>
                      Inr (c\<lparr>shards := (shards c)[nat (nextShard c) := s'],
                             nextShard := next\<rparr>, calls))))"

text \<open>
  The loop \<open>for range ticker\<close>: it runs once for each tick the channel delivers, and the
  list holds the times of the ticks delivered so far. A panic ends the loop; the calls
  made on the recorder are collected in order.
\<close>

fun evictionLoop ::
  "(int \<Rightarrow> 'v shard \<Rightarrow> error + 'v shard) \<Rightarrow> int list \<Rightarrow> 'v Client
     \<Rightarrow> error + 'v Client \<times> metric_call list" where
  "evictionLoop sweep [] c = Inr (c, [])"
| "evictionLoop sweep (t # ts) c =
     (case evictionTick sweep t c of
        Inl e \<Rightarrow> Inl e
      | Inr (c', calls) \<Rightarrow>
          (case evictionLoop sweep ts c' of
             Inl e \<Rightarrow> Inl e
           | Inr (c'', calls') \<Rightarrow> Inr (c'', calls @ calls')))"

text \<open>
  \<open>startEvictions\<close> (lines 125-137): the ticker is asked of the client's clock with the
  client's \<open>evictionInterval\<close> (line 127). \<open>NewTicker\<close> stands for the method of the
  \<open>Clock\<close> interface and gives the ticks that the channel delivers.
\<close>

definition startEvictions ::
  "(Clock \<Rightarrow> int \<Rightarrow> int list) \<Rightarrow> (int \<Rightarrow> 'v shard \<Rightarrow> error + 'v shard) \<Rightarrow> 'v Client
     \<Rightarrow> error + 'v Client \<times> metric_call list" where
  "startEvictions NewTicker sweep c =
     evictionLoop sweep (NewTicker (clock (cfg c)) (evictionInterval (cfg c))) c"

text \<open>A sweep that returns: the shard method \<open>f\<close> run to its end.\<close>

definition returns :: "(int \<Rightarrow> 'v shard \<Rightarrow> 'v shard) \<Rightarrow> int \<Rightarrow> 'v shard \<Rightarrow> error + 'v shard" where
  "returns f now s = Inr (f now s)"

text \<open>What holds of a client from \<open>New\<close> on: there is a shard and the cursor points at one.\<close>

definition client_inv :: "'v Client \<Rightarrow> bool" where
  "client_inv c = (shards c \<noteq> [] \<and> 0 \<le> nextShard c \<and> nextShard c < int (length (shards c)))"

section \<open>The lifetime of a client\<close>

text \<open>
  The methods of cache.go that change a client, as operations; \<open>Size\<close>, \<open>getShard\<close> and
  \<open>reportCacheHits\<close> only read it. A tick sweeps with the shard's \<open>evictExpired\<close>. A run
  applies operations one after the other and stops at the first panic.
\<close>

datatype 'v operation = DoSet int string 'v bool | DoDelete string | DoTick int

fun apply_operation ::
  "(string \<Rightarrow> 64 word) \<Rightarrow> 'v Client \<Rightarrow> 'v operation \<Rightarrow> error + 'v Client" where
  "apply_operation hash c (DoSet now key v missing) =
     map_sum id fst (set_client hash now c key v missing)"
| "apply_operation hash c (DoDelete key) = map_sum id fst (Delete hash c key)"
| "apply_operation hash c (DoTick now) =
     map_sum id fst (evictionTick (returns evictExpired) now c)"

fun run :: "(string \<Rightarrow> 64 word) \<Rightarrow> 'v Client \<Rightarrow> 'v operation list \<Rightarrow> error + 'v Client" where
  "run hash c [] = Inr c"
| "run hash c (x # xs) =
     (case apply_operation hash c x of Inl e \<Rightarrow> Inl e | Inr c' \<Rightarrow> run hash c' xs)"

section \<open>Values for the examples\<close>

text \<open>Modelled from the spec: an option that sets the clock; the options are not among the
  sources. The spec names "a custom clock" as something an option sets.\<close>

definition WithClock :: "Clock \<Rightarrow> Option" where
  "WithClock k config = config\<lparr>clock := k\<rparr>"

text \<open>Modelled from the spec: an option that sets the metrics recorder; the options are not
  among the sources. The spec has the metrics sink "injected once at construction".\<close>

definition WithMetricsRecorder :: "MetricsRecorder \<Rightarrow> Option" where
  "WithMetricsRecorder r config = config\<lparr>metricsRecorder := Some r\<rparr>"

text \<open>A hash for the examples: the length of the key.\<close>

definition length_hash :: "string \<Rightarrow> 64 word" where
  "length_hash key = word_of_nat (length key)"

text \<open>A sweep that panics at the tick of time \<open>t0\<close> and returns at every other tick.\<close>

definition panics_at ::
  "int \<Rightarrow> (int \<Rightarrow> 'v shard \<Rightarrow> 'v shard) \<Rightarrow> int \<Rightarrow> 'v shard \<Rightarrow> error + 'v shard" where
  "panics_at t0 f now s = (if now = t0 then Inl SweepPanic else Inr (f now s))"

text \<open>The client of \<open>New(4, 2, 1000, 50)\<close> with no option: it has no metrics recorder.\<close>

definition plain_client :: "nat Client" where
  "plain_client =
     \<lparr>cfg = defaultConfig 500, ttl = 1000,
      shards = [newShard 2 1000 50 (defaultConfig 500), newShard 2 1000 50 (defaultConfig 500)],
      nextShard = 0\<rparr>"

text \<open>
  The client of \<open>New(4, 2, 1000, 50, WithMetricsRecorder(r))\<close>, and what it becomes: after
  \<open>set("bb", 1)\<close> at time 0 (\<open>half_client\<close>), after \<open>set("a", 2)\<close> at time 1800
  (\<open>stale_client\<close>), and after a sweep of the first shard once "bb" has expired
  (\<open>swept_client\<close>).
\<close>

definition metered_config :: Config where
  "metered_config = WithMetricsRecorder (Recorder 1) (defaultConfig 500)"

definition metered_client :: "nat Client" where
  "metered_client =
     \<lparr>cfg = metered_config, ttl = 1000,
      shards = [newShard 2 1000 50 metered_config, newShard 2 1000 50 metered_config],
      nextShard = 0\<rparr>"

definition half_client :: "nat Client" where
  "half_client =
     \<lparr>cfg = metered_config, ttl = 1000,
      shards =
        [(newShard 2 1000 50 metered_config)
           \<lparr>entries := [(''bb'', \<lparr>val = 1, createdAt = 0, isMissingRecord = False\<rparr>)]\<rparr>,
         newShard 2 1000 50 metered_config],
      nextShard = 0\<rparr>"

definition stale_client :: "nat Client" where
  "stale_client =
     \<lparr>cfg = metered_config, ttl = 1000,
      shards =
        [(newShard 2 1000 50 metered_config)
           \<lparr>entries := [(''bb'', \<lparr>val = 1, createdAt = 0, isMissingRecord = False\<rparr>)]\<rparr>,
         (newShard 2 1000 50 metered_config)
           \<lparr>entries := [(''a'', \<lparr>val = 2, createdAt = 1800, isMissingRecord = False\<rparr>)]\<rparr>],
      nextShard = 0\<rparr>"

definition swept_client :: "nat Client" where
  "swept_client =
     \<lparr>cfg = metered_config, ttl = 1000,
      shards =
        [newShard 2 1000 50 metered_config,
         (newShard 2 1000 50 metered_config)
           \<lparr>entries := [(''a'', \<lparr>val = 2, createdAt = 1800, isMissingRecord = False\<rparr>)]\<rparr>],
      nextShard = 0\<rparr>"

section \<open>Arithmetic and construction lemmas\<close>

lemma go_div_nonneg: "0 < b \<Longrightarrow> 0 \<le> a \<Longrightarrow> go_div a b = Inr (a div b)"
  by (cases "a = 0") (simp_all add: go_div_def)

lemma go_mod_nonneg: "0 < b \<Longrightarrow> 0 \<le> a \<Longrightarrow> go_mod a b = Inr (a mod b)"
  by (cases "a = 0") (simp_all add: go_mod_def)

lemma int_Suc_mod: "(int i + 1) mod int n = int (Suc i mod n)"
  by (simp add: of_nat_mod add.commute)

lemma cursor_offset:
  fixes j i0 m n :: nat
  assumes "j < n" "i0 < n" "m < n"
  shows "((j + n - i0) mod n = m) = (j = (i0 + m) mod n)"
proof
  assume d: "(j + n - i0) mod n = m"
  have "(i0 + (j + n - i0) mod n) mod n = (i0 + (j + n - i0)) mod n"
    by (simp add: mod_add_right_eq)
  also have "\<dots> = (j + n) mod n" using assms by simp
  also have "\<dots> = j" using assms by simp
  finally show "j = (i0 + m) mod n" using d by simp
next
  assume j: "j = (i0 + m) mod n"
  show "(j + n - i0) mod n = m"
  proof (cases "i0 + m < n")
    case True
    then have "j + n - i0 = m + n" using j by simp
    then show ?thesis using assms by simp
  next
    case False
    then have "(i0 + m) mod n = i0 + m - n"
      using assms by (simp add: mod_if)
    then have "j + n - i0 = m" using j False by simp
    then show ?thesis using assms by simp
  qed
qed

lemma makeShards_replicate:
  "makeShards n k t p config = replicate n (newShard k t p config)"
  by (simp add: makeShards_def map_replicate_const)

lemma New_valid:
  assumes "0 < numShards" "0 < t" "0 \<le> pct" "pct \<le> 100" "numShards \<le> cap"
  shows "(New cap numShards t pct opts :: error + 'v Client) =
           Inr \<lparr>cfg = applyOptions (defaultConfig (t div numShards)) opts, ttl = t,
                shards = replicate (nat numShards)
                           (newShard (cap div numShards) t pct
                              (applyOptions (defaultConfig (t div numShards)) opts)),
                nextShard = 0\<rparr>"
  using assms
  by (simp add: New_def validateArgs_def go_div_nonneg makeShards_replicate Let_def)

lemma New_invalid:
  assumes "\<not> (0 < numShards \<and> 0 < t \<and> 0 \<le> pct \<and> pct \<le> 100 \<and> numShards \<le> cap)"
  shows "(New cap numShards t pct opts :: error + 'v Client) = Inl ConfigError"
proof -
  from assms have "validateArgs cap numShards t pct = Inl ConfigError"
    unfolding validateArgs_def by (simp only: if_False)
  then show ?thesis by (simp add: New_def)
qed

lemma New_InrD:
  assumes "New cap numShards t pct opts = Inr (c :: 'v Client)"
  shows "0 < numShards \<and> 0 < t \<and> 0 \<le> pct \<and> pct \<le> 100 \<and> numShards \<le> cap"
    and "c = \<lparr>cfg = applyOptions (defaultConfig (t div numShards)) opts, ttl = t,
                shards = replicate (nat numShards)
                           (newShard (cap div numShards) t pct
                              (applyOptions (defaultConfig (t div numShards)) opts)),
                nextShard = 0\<rparr>"
proof -
  show v: "0 < numShards \<and> 0 < t \<and> 0 \<le> pct \<and> pct \<le> 100 \<and> numShards \<le> cap"
  proof (rule ccontr)
    assume "\<not> ?thesis"
    then have "New cap numShards t pct opts = (Inl ConfigError :: error + 'v Client)"
      by (rule New_invalid)
    with assms show False by simp
  qed
  then show "c = \<lparr>cfg = applyOptions (defaultConfig (t div numShards)) opts, ttl = t,
                shards = replicate (nat numShards)
                           (newShard (cap div numShards) t pct
                              (applyOptions (defaultConfig (t div numShards)) opts)),
                nextShard = 0\<rparr>"
    using assms New_valid [where 'v = 'v, of numShards t pct cap opts] by simp
qed

lemma New_shards_nonempty:
  assumes "New cap numShards t pct opts = Inr (c :: 'v Client)"
  shows "shards c \<noteq> []" and "client_inv c"
  using New_InrD [OF assms] by (simp_all add: client_inv_def)

section \<open>Routing lemmas\<close>

text \<open>For a slice length, which is below \<open>2 ^ 63\<close>, the remainder of the naturals is Go's
  \<open>hash % uint64(len(c.shards))\<close> on 64-bit words.\<close>

lemma uint64_mod_len:
  assumes "n < 2 ^ 64"
  shows "unat ((h :: 64 word) mod word_of_nat n) = unat h mod n"
  using assms by (simp add: unat_mod unat_of_nat)

lemma getShard_nonempty:
  assumes "shards c \<noteq> []"
  shows "getShard hash c key =
           Inr (unat (hash key) mod length (shards c),
                case metricsRecorder (cfg c) of
                  None \<Rightarrow> []
                | Some r \<Rightarrow> [ShardIndex (int (unat (hash key) mod length (shards c)))])"
  using assms by (cases "metricsRecorder (cfg c)") (simp_all add: getShard_def Let_def)

lemma getShard_InrD:
  assumes "getShard hash c key = Inr (i, calls)"
  shows "shards c \<noteq> [] \<and> i = unat (hash key) mod length (shards c) \<and> i < length (shards c)"
proof -
  have ne: "shards c \<noteq> []"
    using assms by (auto simp add: getShard_def)
  then have "unat (hash key) mod length (shards c) < length (shards c)" by simp
  with ne assms show ?thesis by (auto simp add: getShard_nonempty)
qed

section \<open>Scheduler lemmas\<close>

lemma client_inv_cursor:
  assumes "client_inv c"
  shows "nat (nextShard c) < length (shards c)" and "int (nat (nextShard c)) = nextShard c"
  using assms unfolding client_inv_def by linarith+

lemma evictionTick_returns:
  assumes "client_inv c"
  shows "evictionTick (returns f) now c =
           Inr (c\<lparr>shards := (shards c)[nat (nextShard c) := f now (shards c ! nat (nextShard c))],
                  nextShard := (nextShard c + 1) mod int (length (shards c))\<rparr>,
                case metricsRecorder (cfg c) of None \<Rightarrow> [] | Some r \<Rightarrow> [Eviction])"
  using assms
  by (cases "metricsRecorder (cfg c)")
     (simp_all add: evictionTick_def returns_def client_inv_def go_mod_nonneg)

lemma evictionTick_inv:
  assumes "client_inv c" and "evictionTick sweep now c = Inr (c', calls)"
  shows "client_inv c' \<and> length (shards c') = length (shards c) \<and> cfg c' = cfg c"
  using assms
  by (auto simp add: evictionTick_def client_inv_def go_mod_nonneg
           split: if_splits sum.splits)

lemma evictionTick_panic:
  assumes "client_inv c" and "sweep now (shards c ! nat (nextShard c)) = Inl e"
  shows "evictionTick sweep now c = Inl e"
  using assms
  by (cases "metricsRecorder (cfg c)") (simp_all add: evictionTick_def client_inv_def)

lemma evictionLoop_append:
  "evictionLoop sweep (ts @ us) c =
     (case evictionLoop sweep ts c of
        Inl e \<Rightarrow> Inl e
      | Inr (c', calls) \<Rightarrow>
          (case evictionLoop sweep us c' of
             Inl e \<Rightarrow> Inl e
           | Inr (c'', calls') \<Rightarrow> Inr (c'', calls @ calls')))"
  by (induction ts arbitrary: c) (auto split: sum.splits)

lemma evictionLoop_inv:
  assumes "client_inv c" and "evictionLoop sweep ts c = Inr (c', calls)"
  shows "client_inv c' \<and> length (shards c') = length (shards c) \<and> cfg c' = cfg c"
  using assms
proof (induction ts arbitrary: c calls)
  case Nil
  then show ?case by simp
next
  case (Cons t ts)
  from Cons.prems(2) obtain c1 calls1 calls2
    where t: "evictionTick sweep t c = Inr (c1, calls1)"
      and l: "evictionLoop sweep ts c1 = Inr (c', calls2)"
    by (auto split: sum.splits)
  from evictionTick_inv [OF Cons.prems(1) t] Cons.IH [OF _ l]
  show ?case by simp
qed

lemma evictionLoop_returns:
  assumes "client_inv c"
  shows "\<exists>c'. evictionLoop (returns f) ts c =
                 Inr (c', concat (replicate (length ts)
                            (case metricsRecorder (cfg c) of None \<Rightarrow> [] | Some r \<Rightarrow> [Eviction])))
           \<and> client_inv c'
           \<and> length (shards c') = length (shards c)
           \<and> nextShard c' = int ((nat (nextShard c) + length ts) mod length (shards c))"
proof (induction ts rule: rev_induct)
  case Nil
  have "int (nat (nextShard c) mod length (shards c)) = nextShard c"
    using client_inv_cursor [OF assms] by simp
  then show ?case using assms by simp
next
  case (snoc t ts)
  let ?n = "length (shards c)"
  let ?r = "case metricsRecorder (cfg c) of None \<Rightarrow> [] | Some r \<Rightarrow> [Eviction]"
  from snoc.IH obtain c1
    where l1: "evictionLoop (returns f) ts c = Inr (c1, concat (replicate (length ts) ?r))"
      and inv1: "client_inv c1" and k1: "length (shards c1) = ?n"
      and n1: "nextShard c1 = int ((nat (nextShard c) + length ts) mod ?n)"
    by auto
  have cfg1: "cfg c1 = cfg c"
    using evictionLoop_inv [OF assms l1] by simp
  obtain c2 where t2: "evictionTick (returns f) t c1 = Inr (c2, ?r)"
    and n2: "nextShard c2 = (nextShard c1 + 1) mod int ?n"
    using evictionTick_returns [OF inv1, of f t] k1 cfg1 by simp
  have inv2: "client_inv c2" "length (shards c2) = ?n"
    using evictionTick_inv [OF inv1 t2] k1 by simp_all
  have "(int ((nat (nextShard c) + length ts) mod ?n) + 1) mod int ?n
          = int (Suc ((nat (nextShard c) + length ts) mod ?n) mod ?n)"
    by (rule int_Suc_mod)
  also have "Suc ((nat (nextShard c) + length ts) mod ?n) mod ?n
          = Suc (nat (nextShard c) + length ts) mod ?n"
    by (rule mod_Suc_eq)
  finally have nx: "nextShard c2 = int ((nat (nextShard c) + length (ts @ [t])) mod ?n)"
    using n1 n2 by simp
  have "evictionLoop (returns f) (ts @ [t]) c =
          Inr (c2, concat (replicate (length (ts @ [t])) ?r))"
    by (simp add: evictionLoop_append l1 t2 replicate_append_same [symmetric])
  then show ?case using inv2 nx by blast
qed

lemma evictionLoop_partial_round:
  assumes "client_inv c" and "length ts \<le> length (shards c)"
  shows "\<exists>c'. evictionLoop (returns f) ts c =
                 Inr (c', concat (replicate (length ts)
                            (case metricsRecorder (cfg c) of None \<Rightarrow> [] | Some r \<Rightarrow> [Eviction])))
           \<and> cfg c' = cfg c \<and> ttl c' = ttl c
           \<and> length (shards c') = length (shards c)
           \<and> nextShard c' = int ((nat (nextShard c) + length ts) mod length (shards c))
           \<and> (\<forall>j < length (shards c).
                 shards c' ! j =
                   (if (j + length (shards c) - nat (nextShard c)) mod length (shards c) < length ts
                    then f (ts ! ((j + length (shards c) - nat (nextShard c)) mod length (shards c)))
                           (shards c ! j)
                    else shards c ! j))"
  using assms(2)
proof (induction ts rule: rev_induct)
  case Nil
  have "int (nat (nextShard c) mod length (shards c)) = nextShard c"
    using client_inv_cursor [OF assms(1)] by simp
  then show ?case by simp
next
  case (snoc t ts)
  let ?n = "length (shards c)"
  let ?st = "nat (nextShard c)"
  let ?m = "length ts"
  let ?r = "case metricsRecorder (cfg c) of None \<Rightarrow> [] | Some r \<Rightarrow> [Eviction]"
  have m: "?m < ?n" using snoc.prems by simp
  have i0: "?st < ?n" by (rule client_inv_cursor [OF assms(1)])
  from snoc.IH m obtain c1
    where l1: "evictionLoop (returns f) ts c = Inr (c1, concat (replicate ?m ?r))"
      and k1: "cfg c1 = cfg c" "ttl c1 = ttl c" "length (shards c1) = ?n"
      and n1: "nextShard c1 = int ((?st + ?m) mod ?n)"
      and s1: "\<forall>j < ?n. shards c1 ! j =
                 (if (j + ?n - ?st) mod ?n < ?m then f (ts ! ((j + ?n - ?st) mod ?n)) (shards c ! j)
                  else shards c ! j)"
    by auto
  have inv1: "client_inv c1"
    using evictionLoop_inv [OF assms(1) l1] by simp
  let ?cur = "(?st + ?m) mod ?n"
  have pos: "0 < ?n" using m by linarith
  have i: "?cur < ?n" using pos by simp
  let ?c2 = "c1\<lparr>shards := (shards c1)[?cur := f t (shards c1 ! ?cur)],
                nextShard := (nextShard c1 + 1) mod int ?n\<rparr>"
  have t2: "evictionTick (returns f) t c1 = Inr (?c2, ?r)"
    using evictionTick_returns [OF inv1, of f t] k1 n1 by simp
  have l2: "evictionLoop (returns f) (ts @ [t]) c =
              Inr (?c2, concat (replicate (length (ts @ [t])) ?r))"
    by (simp add: evictionLoop_append l1 t2 replicate_append_same [symmetric])
  have nx: "nextShard ?c2 = int ((?st + length (ts @ [t])) mod ?n)"
  proof -
    have "(int ?cur + 1) mod int ?n = int (Suc ?cur mod ?n)"
      by (rule int_Suc_mod)
    also have "Suc ?cur mod ?n = Suc (?st + ?m) mod ?n"
      by (rule mod_Suc_eq)
    finally have "(nextShard c1 + 1) mod int ?n = int (Suc (?st + ?m) mod ?n)"
      using n1 by simp
    then show ?thesis by simp
  qed
  have sh: "shards ?c2 ! j =
              (if (j + ?n - ?st) mod ?n < length (ts @ [t])
               then f ((ts @ [t]) ! ((j + ?n - ?st) mod ?n)) (shards c ! j)
               else shards c ! j)" if j: "j < ?n" for j
  proof (cases "j = ?cur")
    case True
    then have d: "(j + ?n - ?st) mod ?n = ?m"
      using cursor_offset [OF j i0 m] by simp
    have "shards c1 ! j = shards c ! j"
      using s1 j d by simp
    then show ?thesis
      using True d j k1 by simp
  next
    case False
    then have d: "(j + ?n - ?st) mod ?n \<noteq> ?m"
      using cursor_offset [OF j i0 m] by simp
    have "shards ?c2 ! j = shards c1 ! j"
      using False by simp
    then show ?thesis
      using s1 j d by (auto simp add: nth_append less_Suc_eq)
  qed
  show ?case
    using l2 nx sh k1 by (intro exI [of _ ?c2]) simp
qed

lemma evictionLoop_panic:
  assumes "client_inv c" and "evictionLoop sweep ts c = Inr (c1, calls1)"
    and "sweep t (shards c1 ! nat (nextShard c1)) = Inl e"
  shows "evictionLoop sweep (ts @ t # us) c = Inl e"
proof -
  have "client_inv c1" using evictionLoop_inv [OF assms(1,2)] by simp
  then have "evictionTick sweep t c1 = Inl e"
    using assms(3) by (rule evictionTick_panic)
  then show ?thesis by (simp add: evictionLoop_append assms(2))
qed

section \<open>Lifetime lemmas\<close>

text \<open>A run from a client that satisfies \<open>client_inv\<close> never panics, and it keeps
  \<open>client_inv\<close>, the number of shards, the configuration and the capacity of every shard.\<close>

lemma set_shard_capacity: "shardCapacity (fst (set_shard now key v missing s)) = shardCapacity s"
  by (simp add: set_shard_def Let_def)

lemma list_update_all:
  assumes "\<forall>s \<in> set xs. P s" and "P y"
  shows "\<forall>s \<in> set (xs[i := y]). P s"
  using assms set_update_subset_insert [of xs i y] by auto

lemma update_keeps_capacity:
  assumes "i < length xs" and "shardCapacity y = shardCapacity (xs ! i)"
  shows "(\<forall>s \<in> set xs. shardCapacity s = k) \<longrightarrow> (\<forall>s \<in> set (xs[i := y]). shardCapacity s = k)"
proof
  assume a: "\<forall>s \<in> set xs. shardCapacity s = k"
  then have "shardCapacity y = k" using assms nth_mem [OF assms(1)] by simp
  with a show "\<forall>s \<in> set (xs[i := y]). shardCapacity s = k"
    by (rule list_update_all)
qed

lemma apply_operation_total:
  assumes "client_inv c"
  shows "\<exists>c'. apply_operation hash c x = Inr c'"
proof (cases x)
  case (DoSet now key v missing)
  have "shards c \<noteq> []" using assms by (simp add: client_inv_def)
  then show ?thesis
    using DoSet by (simp add: set_client_def getShard_nonempty split: prod.splits)
next
  case (DoDelete key)
  have "shards c \<noteq> []" using assms by (simp add: client_inv_def)
  then show ?thesis
    using DoDelete by (simp add: Delete_def getShard_nonempty)
next
  case (DoTick now)
  then show ?thesis by (simp add: evictionTick_returns [OF assms])
qed

lemma apply_operation_keeps:
  assumes "apply_operation hash c x = Inr c'" and "client_inv c"
  shows "client_inv c' \<and> length (shards c') = length (shards c) \<and> cfg c' = cfg c
         \<and> ((\<forall>s \<in> set (shards c). shardCapacity s = k)
              \<longrightarrow> (\<forall>s \<in> set (shards c'). shardCapacity s = k))"
proof (cases x)
  case (DoSet now key v missing)
  have ne: "shards c \<noteq> []" using assms(2) by (simp add: client_inv_def)
  let ?i = "unat (hash key) mod length (shards c)"
  have i: "?i < length (shards c)" using ne by simp
  have c': "c' = c\<lparr>shards := (shards c)[?i := fst (set_shard now key v missing (shards c ! ?i))]\<rparr>"
    using assms(1) DoSet
    by (auto simp add: set_client_def getShard_nonempty [OF ne] split: prod.splits)
  have "shardCapacity (fst (set_shard now key v missing (shards c ! ?i))) = shardCapacity (shards c ! ?i)"
    by (rule set_shard_capacity)
  from update_keeps_capacity [OF i this, of k] show ?thesis
    using c' assms(2) by (simp add: client_inv_def)
next
  case (DoDelete key)
  have ne: "shards c \<noteq> []" using assms(2) by (simp add: client_inv_def)
  let ?i = "unat (hash key) mod length (shards c)"
  have i: "?i < length (shards c)" using ne by simp
  have c': "c' = c\<lparr>shards := (shards c)[?i := delete_shard key (shards c ! ?i)]\<rparr>"
    using assms(1) DoDelete by (auto simp add: Delete_def getShard_nonempty [OF ne])
  have "shardCapacity (delete_shard key (shards c ! ?i)) = shardCapacity (shards c ! ?i)"
    by (simp add: delete_shard_def)
  from update_keeps_capacity [OF i this, of k] show ?thesis
    using c' assms(2) by (simp add: client_inv_def)
next
  case (DoTick now)
  let ?i = "nat (nextShard c)"
  have i: "?i < length (shards c)" by (rule client_inv_cursor [OF assms(2)])
  have c': "c' = c\<lparr>shards := (shards c)[?i := evictExpired now (shards c ! ?i)],
                    nextShard := (nextShard c + 1) mod int (length (shards c))\<rparr>"
    using assms(1) DoTick by (simp add: evictionTick_returns [OF assms(2)])
  have inv: "client_inv c'"
    using assms(2) c' by (simp add: client_inv_def)
  have "shardCapacity (evictExpired now (shards c ! ?i)) = shardCapacity (shards c ! ?i)"
    by (simp add: evictExpired_def)
  from update_keeps_capacity [OF i this, of k] show ?thesis
    using c' inv by simp
qed

lemma run_total:
  assumes "client_inv c"
  shows "\<exists>c'. run hash c xs = Inr c'"
  using assms
proof (induction xs arbitrary: c)
  case Nil
  then show ?case by simp
next
  case (Cons x xs)
  from apply_operation_total [OF Cons.prems] obtain c1
    where s: "apply_operation hash c x = Inr c1" by blast
  have "client_inv c1" using apply_operation_keeps [OF s Cons.prems] by simp
  from Cons.IH [OF this] show ?case using s by simp
qed

lemma run_keeps:
  assumes "run hash c xs = Inr c'" and "client_inv c"
  shows "client_inv c' \<and> length (shards c') = length (shards c) \<and> cfg c' = cfg c
         \<and> ((\<forall>s \<in> set (shards c). shardCapacity s = k)
              \<longrightarrow> (\<forall>s \<in> set (shards c'). shardCapacity s = k))"
  using assms
proof (induction xs arbitrary: c)
  case Nil
  then show ?case by simp
next
  case (Cons x xs)
  from Cons.prems(1) obtain c1
    where s: "apply_operation hash c x = Inr c1" and r: "run hash c1 xs = Inr c'"
    by (auto split: sum.splits)
  from apply_operation_keeps [OF s Cons.prems(2), of k] Cons.IH [OF r]
  show ?case by simp
qed

text \<open>Every client that \<open>New\<close> returned, and every client a run makes of it, satisfies
  \<open>client_inv\<close>.\<close>

lemma reachable_client_inv:
  assumes "New cap numShards t pct opts = Inr (c :: 'v Client)" and "run hash c xs = Inr c'"
  shows "client_inv c'"
  using run_keeps [OF assms(2) New_shards_nonempty(2) [OF assms(1)]] by simp

section \<open>The example clients\<close>

lemma New_plain_client: "New 4 2 1000 50 [] = Inr plain_client"
  by (simp add: New_valid plain_client_def numeral_2_eq_2)

lemma New_metered_client:
  "New 4 2 1000 50 [WithMetricsRecorder (Recorder 1)] = Inr metered_client"
  by (simp add: New_valid metered_client_def metered_config_def numeral_2_eq_2)

lemma plain_client_inv: "client_inv plain_client"
  by (simp add: client_inv_def plain_client_def)

lemma stale_client_inv: "client_inv stale_client"
  by (simp add: client_inv_def stale_client_def)

lemma plain_client_facts:
  "length (shards plain_client) = 2" "metricsRecorder (cfg plain_client) = None"
  "nextShard plain_client = 0" "shards plain_client \<noteq> []"
  by (simp_all add: plain_client_def defaultConfig_def)

lemma stale_client_facts:
  "length (shards stale_client) = 2" "metricsRecorder (cfg stale_client) = Some (Recorder 1)"
  "nextShard stale_client = 0" "shards stale_client \<noteq> []"
  by (simp_all add: stale_client_def metered_config_def WithMetricsRecorder_def)

lemma length_hash_abc: "unat (length_hash ''abc'') = 3"
  by (simp add: length_hash_def)

lemma length_hash_bb: "unat (length_hash ''bb'') = 2"
  by (simp add: length_hash_def)

lemma length_hash_a: "unat (length_hash ''a'') = 1"
  by (simp add: length_hash_def)

lemma metered_getShard:
  "getShard length_hash metered_client ''bb'' = Inr (0, [ShardIndex 0])"
proof -
  have "shards metered_client \<noteq> []" "length (shards metered_client) = 2"
    "metricsRecorder (cfg metered_client) = Some (Recorder 1)"
    by (simp_all add: metered_client_def metered_config_def WithMetricsRecorder_def)
  then show ?thesis by (simp add: getShard_nonempty length_hash_bb)
qed

lemma half_getShard:
  "getShard length_hash half_client ''a'' = Inr (1, [ShardIndex 1])"
proof -
  have "shards half_client \<noteq> []" "length (shards half_client) = 2"
    "metricsRecorder (cfg half_client) = Some (Recorder 1)"
    by (simp_all add: half_client_def metered_config_def WithMetricsRecorder_def)
  then show ?thesis by (simp add: getShard_nonempty length_hash_a)
qed

lemma step1: "apply_operation length_hash metered_client (DoSet 0 ''bb'' 1 False) = Inr half_client"
  by (simp add: set_client_def metered_getShard)
     (simp add: metered_client_def half_client_def set_shard_def newShard_def Let_def)

lemma step2: "apply_operation length_hash half_client (DoSet 1800 ''a'' 2 False) = Inr stale_client"
  by (simp add: set_client_def half_getShard)
     (simp add: stale_client_def half_client_def set_shard_def newShard_def Let_def)

lemma stale_client_reachable:
  "run length_hash metered_client [DoSet 0 ''bb'' 1 False, DoSet 1800 ''a'' 2 False] = Inr stale_client"
  by (simp only: run.simps step1 step2 sum.case)

section \<open>C1: New validates its arguments\<close>

text \<open>
  C1. \<open>New\<close> returns a client exactly when \<open>numShards > 0\<close>, \<open>ttl > 0\<close>,
  \<open>0 <= evictionPercentage <= 100\<close> and \<open>capacity >= numShards\<close>; on every other argument
  tuple it fails with the configuration error and returns no client. The divisions and the
  \<open>make\<close> of \<open>New\<close> come after the validation and cannot panic. \<open>validateArgs\<close> is
  modelled from the spec.
\<close>

theorem New_validates:
  "((\<exists>c. (New cap numShards t pct opts :: error + 'v Client) = Inr c)
      \<longleftrightarrow> (0 < numShards \<and> 0 < t \<and> 0 \<le> pct \<and> pct \<le> 100 \<and> numShards \<le> cap))
   \<and> (\<not> (0 < numShards \<and> 0 < t \<and> 0 \<le> pct \<and> pct \<le> 100 \<and> numShards \<le> cap)
        \<longrightarrow> (New cap numShards t pct opts :: error + 'v Client) = Inl ConfigError)"
proof (cases "0 < numShards \<and> 0 < t \<and> 0 \<le> pct \<and> pct \<le> 100 \<and> numShards \<le> cap")
  case True
  then show ?thesis using New_valid [where 'v = 'v, of numShards t pct cap opts] by simp
next
  case False
  then show ?thesis using New_invalid [where 'v = 'v, of numShards t pct cap opts] by simp
qed

theorem New_validates_witness:
  "(New 4 0 1000 50 [] :: error + nat Client) = Inl ConfigError
   \<and> (New 4 2 0 50 [] :: error + nat Client) = Inl ConfigError
   \<and> (New 4 2 1000 101 [] :: error + nat Client) = Inl ConfigError
   \<and> (New 1 2 1000 50 [] :: error + nat Client) = Inl ConfigError
   \<and> (\<exists>c. (New 4 2 1000 50 [] :: error + nat Client) = Inr c)"
  using New_validates [where 'v = nat, of 4 0 1000 50 "[]"]
    New_validates [where 'v = nat, of 4 2 0 50 "[]"]
    New_validates [where 'v = nat, of 4 2 1000 101 "[]"]
    New_validates [where 'v = nat, of 1 2 1000 50 "[]"]
    New_validates [where 'v = nat, of 4 2 1000 50 "[]"]
  by simp

section \<open>C2: one shard per tick, round robin\<close>

text \<open>
  C2. On a client whose cursor points at a shard (every client from \<open>New\<close> on), a tick
  takes exactly one step, whatever the shard method \<open>f\<close> that \<open>evictExpired\<close> stands for:
  the \<open>Eviction\<close> event is reported to metrics, which is one call of \<open>Eviction\<close> on the
  configured recorder (the recorder is optional, and with none configured the report is
  the no-op of C6); only the shard under the cursor is replaced, by its sweep; and the
  cursor becomes \<open>(cursor + 1) mod numShards\<close>. Over \<open>numShards\<close> consecutive ticks the
  cursor comes back to where it was and every shard has been swept exactly once: shard \<open>j\<close>
  is its old value swept at the tick number \<open>(j - cursor) mod numShards\<close>.
\<close>

theorem evictionTick_round_robin:
  assumes "client_inv c"
  shows "evictionTick (returns f) now c =
           Inr (c\<lparr>shards := (shards c)[nat (nextShard c) := f now (shards c ! nat (nextShard c))],
                  nextShard := (nextShard c + 1) mod int (length (shards c))\<rparr>,
                case metricsRecorder (cfg c) of None \<Rightarrow> [] | Some r \<Rightarrow> [Eviction])
         \<and> (length ts = length (shards c) \<longrightarrow>
              (\<exists>c'. evictionLoop (returns f) ts c =
                       Inr (c', concat (replicate (length (shards c))
                                  (case metricsRecorder (cfg c) of None \<Rightarrow> [] | Some r \<Rightarrow> [Eviction])))
                 \<and> length (shards c') = length (shards c)
                 \<and> nextShard c' = nextShard c
                 \<and> (\<forall>j < length (shards c).
                       shards c' ! j =
                         f (ts ! ((j + length (shards c) - nat (nextShard c)) mod length (shards c)))
                           (shards c ! j))))"
proof (intro conjI impI)
  show "evictionTick (returns f) now c =
           Inr (c\<lparr>shards := (shards c)[nat (nextShard c) := f now (shards c ! nat (nextShard c))],
                  nextShard := (nextShard c + 1) mod int (length (shards c))\<rparr>,
                case metricsRecorder (cfg c) of None \<Rightarrow> [] | Some r \<Rightarrow> [Eviction])"
    by (rule evictionTick_returns [OF assms])
next
  assume len: "length ts = length (shards c)"
  let ?n = "length (shards c)"
  have pos: "0 < ?n" using assms by (simp add: client_inv_def)
  from evictionLoop_partial_round [OF assms, of ts f] len obtain c'
    where l: "evictionLoop (returns f) ts c =
                Inr (c', concat (replicate ?n
                       (case metricsRecorder (cfg c) of None \<Rightarrow> [] | Some r \<Rightarrow> [Eviction])))"
      and k: "length (shards c') = ?n"
      and n: "nextShard c' = int ((nat (nextShard c) + ?n) mod ?n)"
      and s: "\<forall>j < ?n. shards c' ! j =
                 (if (j + ?n - nat (nextShard c)) mod ?n < ?n
                  then f (ts ! ((j + ?n - nat (nextShard c)) mod ?n)) (shards c ! j)
                  else shards c ! j)"
    by auto
  have "nextShard c' = nextShard c"
    using n client_inv_cursor [OF assms] by simp
  moreover have "\<forall>j < ?n. shards c' ! j =
                   f (ts ! ((j + ?n - nat (nextShard c)) mod ?n)) (shards c ! j)"
    using s pos by simp
  ultimately show "\<exists>c'. evictionLoop (returns f) ts c =
                       Inr (c', concat (replicate (length (shards c))
                                  (case metricsRecorder (cfg c) of None \<Rightarrow> [] | Some r \<Rightarrow> [Eviction])))
                 \<and> length (shards c') = length (shards c)
                 \<and> nextShard c' = nextShard c
                 \<and> (\<forall>j < length (shards c).
                       shards c' ! j =
                         f (ts ! ((j + length (shards c) - nat (nextShard c)) mod length (shards c)))
                           (shards c ! j))"
    using l k by blast
qed

theorem evictionTick_round_robin_witness:
  "client_inv stale_client
   \<and> evictionTick (returns evictExpired) 2000 stale_client =
       Inr (swept_client\<lparr>nextShard := 1\<rparr>, [Eviction])
   \<and> (\<exists>c'. evictionLoop (returns evictExpired) [2000, 2500] stale_client =
              Inr (c', [Eviction, Eviction])
         \<and> nextShard c' = 0
         \<and> shards c' ! 0 = shards swept_client ! 0
         \<and> shards c' ! 1 = shards swept_client ! 1)"
proof -
  note th = evictionTick_round_robin [OF stale_client_inv, of evictExpired 2000 "[2000, 2500]"]
  have len: "length [2000, 2500 :: int] = length (shards stale_client)"
    by (simp add: stale_client_facts)
  note m = stale_client_facts(2)
  from th have "evictionTick (returns evictExpired) 2000 stale_client =
      Inr (stale_client\<lparr>shards := (shards stale_client)[nat (nextShard stale_client) :=
              evictExpired 2000 (shards stale_client ! nat (nextShard stale_client))],
            nextShard := (nextShard stale_client + 1) mod int (length (shards stale_client))\<rparr>,
           case metricsRecorder (cfg stale_client) of None \<Rightarrow> [] | Some r \<Rightarrow> [Eviction])"
    by (rule conjunct1)
  then have tick: "evictionTick (returns evictExpired) 2000 stale_client =
       Inr (swept_client\<lparr>nextShard := 1\<rparr>, [Eviction])"
    by (simp add: m) (simp add: stale_client_def swept_client_def evictExpired_def newShard_def)
  from th len obtain c'
    where l: "evictionLoop (returns evictExpired) [2000, 2500] stale_client =
                Inr (c', concat (replicate (length (shards stale_client))
                       (case metricsRecorder (cfg stale_client) of None \<Rightarrow> [] | Some r \<Rightarrow> [Eviction])))"
      and n: "nextShard c' = nextShard stale_client"
      and s: "\<forall>j < length (shards stale_client).
                shards c' ! j =
                  evictExpired ([2000, 2500] ! ((j + length (shards stale_client)
                                    - nat (nextShard stale_client)) mod length (shards stale_client)))
                    (shards stale_client ! j)"
    by blast
  have l': "evictionLoop (returns evictExpired) [2000, 2500] stale_client =
              Inr (c', [Eviction, Eviction])"
    using l by (simp add: stale_client_facts numeral_2_eq_2)
  have n': "nextShard c' = 0" using n by (simp add: stale_client_facts)
  have "shards c' ! 0 = evictExpired 2000 (shards stale_client ! 0)"
    using s [rule_format, of 0] by (simp add: stale_client_facts)
  then have s0: "shards c' ! 0 = shards swept_client ! 0"
    by (simp add: stale_client_def swept_client_def evictExpired_def newShard_def)
  have "shards c' ! 1 = evictExpired 2500 (shards stale_client ! 1)"
    using s [rule_format, of 1] by (simp add: stale_client_facts)
  then have s1: "shards c' ! 1 = shards swept_client ! 1"
    by (simp add: stale_client_def swept_client_def evictExpired_def newShard_def)
  show ?thesis
    using stale_client_inv tick l' n' s0 s1 by blast
qed

section \<open>C3: routing is a function of the key and the shard count\<close>

text \<open>
  C3. \<open>getShard\<close> returns the shard at index \<open>hash(key) mod numShards\<close>. The index is the
  same after any run of operations on the client, and the same on any client with as many
  shards: it depends on the key and the shard count alone. The chosen index is reported
  to the metrics recorder, which is one call of \<open>ShardIndex\<close> with that index on the
  configured recorder (the recorder is optional, and with none configured the report is
  the no-op of C6).
\<close>

theorem getShard_routing:
  assumes "client_inv c"
  shows "getShard hash c key =
           Inr (unat (hash key) mod length (shards c),
                case metricsRecorder (cfg c) of
                  None \<Rightarrow> []
                | Some r \<Rightarrow> [ShardIndex (int (unat (hash key) mod length (shards c)))])
         \<and> (run hash c xs = Inr c'
              \<longrightarrow> map_sum id fst (getShard hash c' key) = map_sum id fst (getShard hash c key))
         \<and> (length (shards d) = length (shards c)
              \<longrightarrow> map_sum id fst (getShard hash d key) = map_sum id fst (getShard hash c key))"
proof (intro conjI impI)
  have ne: "shards c \<noteq> []" using assms by (simp add: client_inv_def)
  show g: "getShard hash c key =
           Inr (unat (hash key) mod length (shards c),
                case metricsRecorder (cfg c) of
                  None \<Rightarrow> []
                | Some r \<Rightarrow> [ShardIndex (int (unat (hash key) mod length (shards c)))])"
    by (rule getShard_nonempty [OF ne])
  {
    assume r: "run hash c xs = Inr c'"
    from run_keeps [OF r assms] have "client_inv c'" and k: "length (shards c') = length (shards c)"
      by simp_all
    then have "shards c' \<noteq> []" by (simp add: client_inv_def)
    from getShard_nonempty [OF this, of hash key] g k
    show "map_sum id fst (getShard hash c' key) = map_sum id fst (getShard hash c key)"
      by simp
  }
  {
    assume k: "length (shards d) = length (shards c)"
    with ne have "shards d \<noteq> []" by auto
    from getShard_nonempty [OF this, of hash key] g k
    show "map_sum id fst (getShard hash d key) = map_sum id fst (getShard hash c key)"
      by simp
  }
qed

theorem getShard_routing_witness:
  "client_inv stale_client
   \<and> getShard length_hash stale_client ''abc'' = Inr (1, [ShardIndex 1])
   \<and> (\<exists>c'. run length_hash stale_client [DoTick 2000, DoDelete ''abc'', DoSet 2100 ''abc'' 7 False]
               = Inr c'
         \<and> map_sum id fst (getShard length_hash c' ''abc'') = Inr 1)
   \<and> map_sum id fst (getShard length_hash swept_client ''abc'') = Inr 1"
proof -
  obtain c' where r: "run length_hash stale_client
                        [DoTick 2000, DoDelete ''abc'', DoSet 2100 ''abc'' 7 False] = Inr c'"
    using run_total [OF stale_client_inv] by blast
  have k: "length (shards swept_client) = length (shards stale_client)"
    by (simp add: swept_client_def stale_client_def)
  note th = getShard_routing [OF stale_client_inv, of length_hash "''abc''"
      "[DoTick 2000, DoDelete ''abc'', DoSet 2100 ''abc'' 7 False]" c' swept_client]
  from th have g: "getShard length_hash stale_client ''abc'' = Inr (1, [ShardIndex 1])"
    by (simp add: stale_client_facts length_hash_abc)
  from th r g have "map_sum id fst (getShard length_hash c' ''abc'') = Inr 1"
    by simp
  moreover from th k g have "map_sum id fst (getShard length_hash swept_client ''abc'') = Inr 1"
    by simp
  ultimately show ?thesis using stale_client_inv g r by blast
qed

section \<open>C4: the default tick period\<close>

text \<open>
  C4. When no option changes \<open>evictionInterval\<close>, the client that \<open>New\<close> returns has
  \<open>evictionInterval = ttl / numShards\<close> (Go's integer division, which is the floor here),
  and that is the period \<open>startEvictions\<close> asks the ticker for. \<open>numShards\<close> periods fill
  the TTL up to the rounding: they take more than \<open>ttl - numShards\<close> and at most \<open>ttl\<close>
  nanoseconds, so a round over all shards takes about one TTL.
\<close>

theorem New_default_interval:
  assumes "New cap numShards t pct opts = Inr (c :: 'v Client)"
    and "\<forall>opt \<in> set opts. \<forall>config. evictionInterval (opt config) = evictionInterval config"
  shows "go_div t numShards = Inr (evictionInterval (cfg c))
         \<and> evictionInterval (cfg c) = t div numShards
         \<and> startEvictions NewTicker sweep c =
             evictionLoop sweep (NewTicker (clock (cfg c)) (t div numShards)) c
         \<and> numShards * evictionInterval (cfg c) \<le> t
         \<and> t < numShards * evictionInterval (cfg c) + numShards"
proof -
  have keep: "evictionInterval (applyOptions config opts) = evictionInterval config" for config
    using assms(2) by (induction opts arbitrary: config) simp_all
  have v: "0 < numShards" "0 < t" and c: "cfg c = applyOptions (defaultConfig (t div numShards)) opts"
    using New_InrD [OF assms(1)] by simp_all
  have i: "evictionInterval (cfg c) = t div numShards"
    by (simp add: c keep defaultConfig_def)
  have lo: "numShards * (t div numShards) \<le> t"
    using v(1) pos_mod_sign [of numShards t] mult_div_mod_eq [of numShards t] by linarith
  have hi: "t < numShards * (t div numShards) + numShards"
    using v(1) pos_mod_bound [of numShards t] mult_div_mod_eq [of numShards t] by linarith
  show ?thesis
    using v i lo hi by (simp add: go_div_nonneg startEvictions_def)
qed

theorem New_default_interval_witness:
  "\<exists>c :: nat Client. New 7 3 1000 50 [WithClock (CustomClock 7)] = Inr c
     \<and> go_div 1000 3 = Inr 333
     \<and> evictionInterval (cfg c) = 333
     \<and> 3 * evictionInterval (cfg c) \<le> 1000
     \<and> 1000 < 3 * evictionInterval (cfg c) + 3"
proof -
  obtain c :: "nat Client" where c: "New 7 3 1000 50 [WithClock (CustomClock 7)] = Inr c"
    using New_valid [where 'v = nat, of 3 1000 50 7] by simp
  have keep: "\<forall>opt \<in> set [WithClock (CustomClock 7)].
                \<forall>config. evictionInterval (opt config) = evictionInterval config"
    by (simp add: WithClock_def)
  show ?thesis
    using c New_default_interval [OF c keep] by simp
qed

section \<open>C5: Size\<close>

lemma sizeLoop_eq:
  "sizeLoop ss (a, k) = (a + sum_list (map size_shard ss), k + length ss)"
  by (induction ss arbitrary: a k) simp_all

text \<open>
  C5. For every client, \<open>Size\<close> returns the sum of \<open>size()\<close> over its shards, and its loop
  calls \<open>size()\<close> once for each shard: the number of calls is the number of shards,
  whatever the shards hold.
\<close>

theorem Size_sums_shards:
  "Size c = sum_list (map size_shard (shards c)) \<and> Size_calls c = length (shards c)"
  by (simp add: Size_def Size_calls_def sizeLoop_eq)

section \<open>C6: no recorder, no call\<close>

text \<open>
  C6. On a client with no metrics recorder, \<open>reportCacheHits\<close> returns without a call, for
  a hit and for a miss; \<open>getShard\<close> and the eviction tick never dereference the nil
  recorder; and when the cursor points at a shard they return normally, having made no
  call.
\<close>

theorem nil_recorder_is_skipped:
  assumes "metricsRecorder (cfg c) = None"
  shows "reportCacheHits c cacheHit = Inr []
         \<and> getShard hash c key \<noteq> Inl NilDereference
         \<and> evictionTick (returns f) now c \<noteq> Inl NilDereference
         \<and> (client_inv c \<longrightarrow>
              getShard hash c key = Inr (unat (hash key) mod length (shards c), [])
              \<and> (\<exists>c'. evictionTick (returns f) now c = Inr (c', [])))"
proof (intro conjI impI)
  show "reportCacheHits c cacheHit = Inr []"
    using assms by (simp add: reportCacheHits_def)
  show "getShard hash c key \<noteq> Inl NilDereference"
    using assms by (simp add: getShard_def Let_def)
  show "evictionTick (returns f) now c \<noteq> Inl NilDereference"
    using assms by (simp add: evictionTick_def returns_def go_mod_def)
next
  assume inv: "client_inv c"
  then have "shards c \<noteq> []" by (simp add: client_inv_def)
  from getShard_nonempty [OF this, of hash key]
  show "getShard hash c key = Inr (unat (hash key) mod length (shards c), [])"
    using assms by simp
  from evictionTick_returns [OF inv, of f now]
  show "\<exists>c'. evictionTick (returns f) now c = Inr (c', [])"
    using assms by simp
qed

theorem nil_recorder_is_skipped_witness:
  "metricsRecorder (cfg plain_client) = None
   \<and> client_inv plain_client
   \<and> reportCacheHits plain_client True = Inr []
   \<and> reportCacheHits plain_client False = Inr []
   \<and> getShard length_hash plain_client ''abc'' = Inr (1, [])
   \<and> (\<exists>c'. evictionTick (returns evictExpired) 2000 plain_client = Inr (c', []))"
  using nil_recorder_is_skipped [OF plain_client_facts(2), of True length_hash "''abc''" evictExpired 2000]
    nil_recorder_is_skipped [OF plain_client_facts(2), of False length_hash "''abc''" evictExpired 2000]
    plain_client_inv
  by (simp add: plain_client_facts length_hash_abc)

section \<open>C7: the shards are fixed at construction\<close>

text \<open>
  C7. The client that \<open>New\<close> returns has exactly \<open>numShards\<close> shards, each made by
  \<open>newShard\<close> with the capacity \<open>capacity / numShards\<close> (Go's integer division). Every run of
  \<open>set\<close>, \<open>Delete\<close> and eviction ticks on it returns, and leaves the number of shards and
  the capacity of every shard as \<open>New\<close> made them.
\<close>

theorem New_fixed_shards:
  assumes "New cap numShards t pct opts = Inr (c :: 'v Client)"
  shows "length (shards c) = nat numShards
         \<and> go_div cap numShards = Inr (cap div numShards)
         \<and> shards c = replicate (nat numShards) (newShard (cap div numShards) t pct (cfg c))
         \<and> (\<forall>s \<in> set (shards c). shardCapacity s = cap div numShards)
         \<and> (\<exists>c'. run hash c xs = Inr c')
         \<and> (\<forall>c'. run hash c xs = Inr c' \<longrightarrow>
               length (shards c') = nat numShards
               \<and> (\<forall>s \<in> set (shards c'). shardCapacity s = cap div numShards))"
proof -
  have v: "0 < numShards" "numShards \<le> cap" using New_InrD(1) [OF assms] by simp_all
  have len: "length (shards c) = nat numShards"
    using New_InrD(2) [OF assms] by simp
  have caps: "\<forall>s \<in> set (shards c). shardCapacity s = cap div numShards"
    using New_InrD(2) [OF assms] by (simp add: newShard_def)
  have inv: "client_inv c" by (rule New_shards_nonempty(2) [OF assms])
  have d: "go_div cap numShards = Inr (cap div numShards)"
    using v by (simp add: go_div_nonneg)
  have later: "length (shards c') = nat numShards
               \<and> (\<forall>s \<in> set (shards c'). shardCapacity s = cap div numShards)"
    if r: "run hash c xs = Inr c'" for c'
    using run_keeps [OF r inv, of "cap div numShards"] len caps by simp
  have made: "shards c = replicate (nat numShards) (newShard (cap div numShards) t pct (cfg c))"
    using New_InrD(2) [OF assms] by simp
  show ?thesis
    using len d made caps run_total [OF inv, of hash xs] later by blast
qed

theorem New_fixed_shards_witness:
  "\<exists>c c' :: nat Client.
      New 5 2 1000 50 [WithMetricsRecorder (Recorder 1)] = Inr c
      \<and> length (shards c) = 2
      \<and> go_div 5 2 = Inr 2
      \<and> (\<forall>s \<in> set (shards c). shardCapacity s = 2)
      \<and> run length_hash c
           [DoSet 0 ''bb'' 1 False, DoSet 1800 ''a'' 2 False, DoTick 2000, DoDelete ''a''] = Inr c'
      \<and> length (shards c') = 2
      \<and> (\<forall>s \<in> set (shards c'). shardCapacity s = 2)"
proof -
  obtain c :: "nat Client" where c: "New 5 2 1000 50 [WithMetricsRecorder (Recorder 1)] = Inr c"
    using New_valid [where 'v = nat, of 2 1000 50 5] by simp
  note th = New_fixed_shards [OF c, of length_hash
      "[DoSet 0 ''bb'' 1 False, DoSet 1800 ''a'' 2 False, DoTick 2000, DoDelete ''a'']"]
  from th obtain c' where r: "run length_hash c
           [DoSet 0 ''bb'' 1 False, DoSet 1800 ''a'' 2 False, DoTick 2000, DoDelete ''a''] = Inr c'"
    by blast
  from th r have "length (shards c') = 2 \<and> (\<forall>s \<in> set (shards c'). shardCapacity s = 2)"
    by simp
  moreover from th have "length (shards c) = 2 \<and> go_div 5 2 = Inr 2
      \<and> (\<forall>s \<in> set (shards c). shardCapacity s = 2)"
    by simp
  ultimately show ?thesis using c r by blast
qed

section \<open>C8: a panic in a sweep ends the loop\<close>

text \<open>
  C8, as amended. While every sweep returns, the loop takes every tick the ticker
  delivers, however many, and the cursor moves on by one shard for each. The loop does not
  contain a failure: when the sweep of a tick panics, the loop ends with that panic and
  the ticks that follow are not taken.
\<close>

theorem evictionLoop_no_recover:
  assumes "client_inv c"
  shows "(\<exists>c'. evictionLoop (returns f) ts c =
                 Inr (c', concat (replicate (length ts)
                            (case metricsRecorder (cfg c) of None \<Rightarrow> [] | Some r \<Rightarrow> [Eviction])))
            \<and> client_inv c'
            \<and> nextShard c' = int ((nat (nextShard c) + length ts) mod length (shards c)))
         \<and> (evictionLoop sweep ts c = Inr (d, made)
              \<and> sweep t (shards d ! nat (nextShard d)) = Inl e
              \<longrightarrow> evictionLoop sweep (ts @ t # us) c = Inl e)"
proof (intro conjI impI)
  from evictionLoop_returns [OF assms, of f ts]
  show "\<exists>c'. evictionLoop (returns f) ts c =
                 Inr (c', concat (replicate (length ts)
                            (case metricsRecorder (cfg c) of None \<Rightarrow> [] | Some r \<Rightarrow> [Eviction])))
            \<and> client_inv c'
            \<and> nextShard c' = int ((nat (nextShard c) + length ts) mod length (shards c))"
    by blast
next
  assume a: "evictionLoop sweep ts c = Inr (d, made)
              \<and> sweep t (shards d ! nat (nextShard d)) = Inl e"
  then show "evictionLoop sweep (ts @ t # us) c = Inl e"
    using evictionLoop_panic [OF assms, of sweep ts d made t e us] by simp
qed

theorem evictionLoop_no_recover_witness:
  "client_inv stale_client
   \<and> (\<exists>c'. evictionLoop (returns evictExpired) [2000, 2500, 3000] stale_client =
              Inr (c', [Eviction, Eviction, Eviction])
         \<and> nextShard c' = 1)
   \<and> evictionLoop (panics_at 2500 evictExpired) [2000] stale_client =
       Inr (swept_client\<lparr>nextShard := 1\<rparr>, [Eviction])
   \<and> panics_at 2500 evictExpired 2500 (shards swept_client ! 1) = Inl SweepPanic
   \<and> evictionLoop (panics_at 2500 evictExpired) [2000, 2500, 3000] stale_client = Inl SweepPanic"
proof -
  have l: "evictionLoop (panics_at 2500 evictExpired) [2000] stale_client =
             Inr (swept_client\<lparr>nextShard := 1\<rparr>, [Eviction])"
    by (simp add: evictionTick_def panics_at_def go_mod_def stale_client_def swept_client_def
        metered_config_def WithMetricsRecorder_def evictExpired_def newShard_def)
  have p: "panics_at 2500 evictExpired 2500
             (shards (swept_client\<lparr>nextShard := 1\<rparr>) ! nat (nextShard (swept_client\<lparr>nextShard := 1\<rparr>)))
             = Inl SweepPanic"
    by (simp add: panics_at_def)
  note th1 = evictionLoop_no_recover [OF stale_client_inv,
      where f = evictExpired and ts = "[2000, 2500, 3000]", THEN conjunct1]
  note th2 = evictionLoop_no_recover [OF stale_client_inv,
      where sweep = "panics_at 2500 evictExpired" and ts = "[2000]"
        and d = "swept_client\<lparr>nextShard := 1\<rparr>" and made = "[Eviction]"
        and t = 2500 and e = SweepPanic and us = "[3000]", THEN conjunct2]
  from th1 obtain c'
    where "evictionLoop (returns evictExpired) [2000, 2500, 3000] stale_client =
              Inr (c', [Eviction, Eviction, Eviction])" and "nextShard c' = 1"
    by (auto simp add: stale_client_facts numeral_3_eq_3)
  moreover from th2 l p
  have "evictionLoop (panics_at 2500 evictExpired) [2000, 2500, 3000] stale_client = Inl SweepPanic"
    by simp
  moreover have "panics_at 2500 evictExpired 2500 (shards swept_client ! 1) = Inl SweepPanic"
    by (simp add: panics_at_def)
  ultimately show ?thesis using stale_client_inv l by blast
qed

text \<open>
  The claim as first stated has the loop go on after a failed sweep. Here the sweep
  panics at the tick of time 2000 only: the loop over the ticks 2000 and 2500 ends with
  the panic, though the tick of 2500 alone is a step like any other.
\<close>

theorem evictionLoop_panic_counterexample:
  "New 4 2 1000 50 [WithMetricsRecorder (Recorder 1)] = Inr metered_client
   \<and> run length_hash metered_client [DoSet 0 ''bb'' 1 False, DoSet 1800 ''a'' 2 False]
       = Inr stale_client
   \<and> evictionLoop (panics_at 2000 evictExpired) [2000, 2500] stale_client = Inl SweepPanic
   \<and> evictionLoop (panics_at 2000 evictExpired) [2500] stale_client
       = Inr (swept_client\<lparr>nextShard := 1\<rparr>, [Eviction])"
  by (simp only: New_metered_client stale_client_reachable simp_thms)
     (simp add: evictionTick_def panics_at_def go_mod_def stale_client_def swept_client_def
        metered_config_def WithMetricsRecorder_def evictExpired_def newShard_def)

section \<open>C9: the options are applied before the shards are made\<close>

text \<open>
  C9. The client that \<open>New\<close> returns holds the default configuration with all the options
  applied to it, in order, and every one of its shards was made by \<open>newShard\<close> with that
  same configuration, not with the defaults: a clock that an option sets is the clock of
  every shard.
\<close>

theorem New_options_before_shards:
  assumes "New cap numShards t pct opts = Inr (c :: 'v Client)"
  shows "cfg c = applyOptions (defaultConfig (t div numShards)) opts
         \<and> shards c \<noteq> []
         \<and> shards c = replicate (nat numShards) (newShard (cap div numShards) t pct (cfg c))
         \<and> (\<forall>s \<in> set (shards c). shardConfig s = applyOptions (defaultConfig (t div numShards)) opts)"
  using New_InrD [OF assms] by (simp add: newShard_def)

theorem New_options_before_shards_witness:
  "\<exists>c :: nat Client. New 4 2 1000 50 [WithClock (CustomClock 7), WithMetricsRecorder (Recorder 1)] = Inr c
     \<and> shards c \<noteq> []
     \<and> (\<forall>s \<in> set (shards c). clock (shardConfig s) = CustomClock 7
                              \<and> metricsRecorder (shardConfig s) = Some (Recorder 1))"
proof -
  obtain c :: "nat Client"
    where c: "New 4 2 1000 50 [WithClock (CustomClock 7), WithMetricsRecorder (Recorder 1)] = Inr c"
    using New_valid [where 'v = nat, of 2 1000 50 4] by simp
  show ?thesis
    using c New_options_before_shards [OF c]
    by (simp add: WithClock_def WithMetricsRecorder_def)
qed

section \<open>C10: the index of getShard is in bounds\<close>

text \<open>
  C10. On a client that \<open>New\<close> returned, \<open>getShard\<close> returns for every key and every hash
  function: the index \<open>hash(key) mod len(shards)\<close> is below \<open>len(shards)\<close>, so the slice
  access does not panic and the shard returned is one of the client's shards.
\<close>

theorem getShard_in_bounds:
  assumes "New cap numShards t pct opts = Inr (c :: 'v Client)"
  shows "0 < numShards \<and> length (shards c) = nat numShards
         \<and> (\<exists>i calls. getShard hash c key = Inr (i, calls)
               \<and> i = unat (hash key) mod length (shards c)
               \<and> i < length (shards c)
               \<and> shards c ! i \<in> set (shards c))"
proof -
  have n: "0 < numShards" "length (shards c) = nat numShards"
    using New_InrD [OF assms] by simp_all
  have ne: "shards c \<noteq> []" by (rule New_shards_nonempty [OF assms])
  then have lt: "unat (hash key) mod length (shards c) < length (shards c)" by simp
  show ?thesis
    using getShard_nonempty [OF ne, of hash key] lt n by simp
qed

theorem getShard_in_bounds_witness:
  "New 4 2 1000 50 [] = Inr plain_client
   \<and> length (shards plain_client) = 2
   \<and> (\<exists>i calls. getShard length_hash plain_client ''abc'' = Inr (i, calls)
         \<and> i = unat (length_hash ''abc'') mod length (shards plain_client)
         \<and> i < length (shards plain_client)
         \<and> shards plain_client ! i \<in> set (shards plain_client))"
proof -
  note th = getShard_in_bounds [OF New_plain_client, of length_hash "''abc''"]
  from th have "length (shards plain_client) = 2" by simp
  moreover from th
  have "\<exists>i calls. getShard length_hash plain_client ''abc'' = Inr (i, calls)
         \<and> i = unat (length_hash ''abc'') mod length (shards plain_client)
         \<and> i < length (shards plain_client)
         \<and> shards plain_client ! i \<in> set (shards plain_client)"
    by (rule conjunct2 [THEN conjunct2])
  ultimately show ?thesis using New_plain_client by blast
qed

end
